theory Spec2Isabelle
  imports Main "HOL-Library.Word"
begin

section \<open>Time values of the JavaScript Date object\<close>

text \<open>
  \<^verbatim>\<open>calculateDailyAllowance\<close> in \<^verbatim>\<open>src/components/Frame.tsx\<close> works on
  \<^verbatim>\<open>Date\<close> objects through \<^verbatim>\<open>getUTCHours\<close>, \<^verbatim>\<open>getUTCDate\<close>,
  \<^verbatim>\<open>setUTCDate\<close>, \<^verbatim>\<open>setUTCHours\<close> and \<^verbatim>\<open>getTime\<close>. A time value is a
  number of milliseconds since 1970-01-01T00:00:00Z; it is an integer of magnitude at most
  8.64e15, far below 2^53, so the double arithmetic of the source is exact and \<open>int\<close>
  models it. An invalid Date (time value NaN) is \<open>None\<close>. The functions below follow
  the language standard's abstract operations of the same names; \<open>div\<close> and \<open>mod\<close>
  on \<open>int\<close> are the standard's floor and modulo.
\<close>

definition msPerSecond :: int where "msPerSecond = 1000"
definition msPerMinute :: int where "msPerMinute = 60000"
definition msPerHour :: int where "msPerHour = 3600000"
definition msPerDay :: int where "msPerDay = 86400000"

definition Day :: "int \<Rightarrow> int" where
  "Day t = t div msPerDay"

definition TimeWithinDay :: "int \<Rightarrow> int" where
  "TimeWithinDay t = t mod msPerDay"

definition DaysInYear :: "int \<Rightarrow> int" where
  "DaysInYear y =
     (if y mod 4 \<noteq> 0 then 365
      else if y mod 100 \<noteq> 0 then 366
      else if y mod 400 \<noteq> 0 then 365
      else 366)"

definition DayFromYear :: "int \<Rightarrow> int" where
  "DayFromYear y =
     365 * (y - 1970) + (y - 1969) div 4 - (y - 1901) div 100 + (y - 1601) div 400"

definition TimeFromYear :: "int \<Rightarrow> int" where
  "TimeFromYear y = msPerDay * DayFromYear y"

text \<open>Division and remainder facts for the leap-year rule.\<close>

lemma div_succ:
  fixes a n :: int
  assumes "0 < n"
  shows "(a + 1) div n = a div n + (if (a + 1) mod n = 0 then 1 else 0)"
proof (cases "a mod n + 1 = n")
  case True
  have a: "n * (a div n) + a mod n = a"
    by (rule mult_div_mod_eq)
  have "n * (a div n + 1) = n * (a div n) + n"
    by (simp add: algebra_simps)
  with a True have e: "a + 1 = n * (a div n + 1) + 0"
    by linarith
  have "(a + 1) div n = a div n + 1"
    by (rule int_div_pos_eq [OF e]) (use assms in simp_all)
  moreover have "(a + 1) mod n = 0"
    by (rule int_mod_pos_eq [OF e]) (use assms in simp_all)
  ultimately show ?thesis by simp
next
  case False
  have nn: "0 \<le> a mod n" "a mod n < n"
    using assms by simp_all
  with False have r: "0 \<le> a mod n + 1" "a mod n + 1 < n"
    by linarith+
  have a: "n * (a div n) + a mod n = a"
    by (rule mult_div_mod_eq)
  then have e: "a + 1 = n * (a div n) + (a mod n + 1)"
    by linarith
  have "(a + 1) div n = a div n"
    by (rule int_div_pos_eq [OF e]) (use r in simp_all)
  moreover have "(a + 1) mod n = a mod n + 1"
    by (rule int_mod_pos_eq [OF e]) (use r in simp_all)
  moreover have "a mod n + 1 \<noteq> 0"
    using nn by linarith
  ultimately show ?thesis by simp
qed

lemma mod_shift:
  fixes y k n :: int
  shows "(y - n * k) mod n = y mod n"
proof -
  have "(y + n * (- k)) mod n = y mod n"
    by (rule mod_mult_self2)
  then show ?thesis by simp
qed

lemma div4_step:
  "(y - 1968) div 4 = (y - 1969) div 4 + (if y mod 4 = 0 then 1 else 0)" for y :: int
  using div_succ [of 4 "y - 1969"] mod_shift [of y 4 492] by simp

lemma div100_step:
  "(y - 1900) div 100 = (y - 1901) div 100 + (if y mod 100 = 0 then 1 else 0)" for y :: int
  using div_succ [of 100 "y - 1901"] mod_shift [of y 100 19] by simp

lemma div400_step:
  "(y - 1600) div 400 = (y - 1601) div 400 + (if y mod 400 = 0 then 1 else 0)" for y :: int
  using div_succ [of 400 "y - 1601"] mod_shift [of y 400 4] by simp

lemma mod100_mod4: "y mod 100 = 0 \<Longrightarrow> y mod 4 = 0" for y :: int
proof -
  assume h: "y mod 100 = 0"
  have "y mod 100 mod 4 = y mod 4"
    by (rule mod_mod_cancel) simp
  with h show ?thesis by simp
qed

lemma mod400_mod100: "y mod 400 = 0 \<Longrightarrow> y mod 100 = 0" for y :: int
proof -
  assume h: "y mod 400 = 0"
  have "y mod 400 mod 100 = y mod 100"
    by (rule mod_mod_cancel) simp
  with h show ?thesis by simp
qed

text \<open>The day number of 1 January advances by the length of the year.\<close>

lemma DayFromYear_step: "DayFromYear (y + 1) = DayFromYear y + DaysInYear y"
proof -
  have s: "y + 1 - 1969 = y - 1968" "y + 1 - 1901 = y - 1900" "y + 1 - 1601 = y - 1600"
    by simp_all
  show ?thesis
    unfolding DayFromYear_def DaysInYear_def s div4_step div100_step div400_step
    using mod100_mod4 [of y] mod400_mod100 [of y] by auto
qed

lemma DaysInYear_pos: "365 \<le> DaysInYear y"
  unfolding DaysInYear_def by simp

lemma DayFromYear_less: "DayFromYear y < DayFromYear (y + 1)"
  using DayFromYear_step [of y] DaysInYear_pos [of y] by linarith

text \<open>
  The standard defines \<open>YearFromTime t\<close> as the largest year \<open>y\<close> with
  \<open>TimeFromYear y \<le> t\<close>. \<open>year_search\<close> finds it by walking upwards from a year
  that is not after it.
\<close>

function year_search :: "int \<Rightarrow> int \<Rightarrow> int" where
  "year_search d y = (if DayFromYear (y + 1) \<le> d then year_search d (y + 1) else y)"
  by pat_completeness auto
termination
proof (relation "measure (\<lambda>(d, y). nat (d - DayFromYear y))")
  show "wf (measure (\<lambda>(d, y). nat (d - DayFromYear y)))"
    by simp
next
  fix d y :: int
  assume "DayFromYear (y + 1) \<le> d"
  with DayFromYear_less [of y]
  show "((d, y + 1), (d, y)) \<in> measure (\<lambda>(d, y). nat (d - DayFromYear y))"
    by simp
qed

declare year_search.simps [simp del]

definition YearFromTime :: "int \<Rightarrow> int" where
  "YearFromTime t =
     (let d = Day t
      in year_search d (1970 + (if 0 \<le> d then d div 366 else d div 365)))"

definition InLeapYear :: "int \<Rightarrow> int" where
  "InLeapYear t = (if DaysInYear (YearFromTime t) = 365 then 0 else 1)"

definition DayWithinYear :: "int \<Rightarrow> int" where
  "DayWithinYear t = Day t - DayFromYear (YearFromTime t)"

definition MonthFromTime :: "int \<Rightarrow> int" where
  "MonthFromTime t =
     (let d = DayWithinYear t; l = InLeapYear t
      in if d < 31 then 0
         else if d < 59 + l then 1
         else if d < 90 + l then 2
         else if d < 120 + l then 3
         else if d < 151 + l then 4
         else if d < 181 + l then 5
         else if d < 212 + l then 6
         else if d < 243 + l then 7
         else if d < 273 + l then 8
         else if d < 304 + l then 9
         else if d < 334 + l then 10
         else 11)"

definition DateFromTime :: "int \<Rightarrow> int" where
  "DateFromTime t =
     (let d = DayWithinYear t; l = InLeapYear t; m = MonthFromTime t
      in if m = 0 then d + 1
         else if m = 1 then d - 30
         else if m = 2 then d - 58 - l
         else if m = 3 then d - 89 - l
         else if m = 4 then d - 119 - l
         else if m = 5 then d - 150 - l
         else if m = 6 then d - 180 - l
         else if m = 7 then d - 211 - l
         else if m = 8 then d - 242 - l
         else if m = 9 then d - 272 - l
         else if m = 10 then d - 303 - l
         else d - 333 - l)"

definition HourFromTime :: "int \<Rightarrow> int" where
  "HourFromTime t = (t div msPerHour) mod 24"

definition MakeTime :: "int \<Rightarrow> int \<Rightarrow> int \<Rightarrow> int \<Rightarrow> int" where
  "MakeTime hour minute sec ms =
     hour * msPerHour + minute * msPerMinute + sec * msPerSecond + ms"

text \<open>
  \<open>MakeDay year month date\<close>: the standard takes the day number of the first day of
  month \<open>month mod 12\<close> of year \<open>year + month div 12\<close> and adds \<open>date - 1\<close>.
  \<open>MonthStart mn leap\<close> is the number of days of that year before the month.
\<close>

definition MonthStart :: "int \<Rightarrow> int \<Rightarrow> int" where
  "MonthStart mn l =
     (if mn = 0 then 0
      else if mn = 1 then 31
      else if mn = 2 then 59 + l
      else if mn = 3 then 90 + l
      else if mn = 4 then 120 + l
      else if mn = 5 then 151 + l
      else if mn = 6 then 181 + l
      else if mn = 7 then 212 + l
      else if mn = 8 then 243 + l
      else if mn = 9 then 273 + l
      else if mn = 10 then 304 + l
      else 334 + l)"

definition MakeDay :: "int \<Rightarrow> int \<Rightarrow> int \<Rightarrow> int" where
  "MakeDay year month date =
     (let ym = year + month div 12;
          mn = month mod 12;
          l = (if DaysInYear ym = 365 then 0 else 1)
      in DayFromYear ym + MonthStart mn l + date - 1)"

definition MakeDate :: "int \<Rightarrow> int \<Rightarrow> int" where
  "MakeDate day time = day * msPerDay + time"

definition TimeClip :: "int \<Rightarrow> int option" where
  "TimeClip time = (if \<bar>time\<bar> > 8640000000000000 then None else Some time)"

text \<open>The methods of \<^verbatim>\<open>Date.prototype\<close> that the component calls.\<close>

definition getUTCHours :: "int option \<Rightarrow> int option" where
  "getUTCHours this = map_option HourFromTime this"

definition getUTCDate :: "int option \<Rightarrow> int option" where
  "getUTCDate this = map_option DateFromTime this"

definition getTime :: "int option \<Rightarrow> int option" where
  "getTime this = this"

definition setUTCDate :: "int option \<Rightarrow> int option \<Rightarrow> int option" where
  "setUTCDate this date =
     (case this of
        None \<Rightarrow> None
      | Some t \<Rightarrow>
          (case date of
             None \<Rightarrow> None
           | Some dt \<Rightarrow>
               TimeClip
                 (MakeDate (MakeDay (YearFromTime t) (MonthFromTime t) dt) (TimeWithinDay t))))"

definition setUTCHours :: "int option \<Rightarrow> int \<Rightarrow> int \<Rightarrow> int \<Rightarrow> int \<Rightarrow> int option" where
  "setUTCHours this hour minute sec ms =
     (case this of
        None \<Rightarrow> None
      | Some t \<Rightarrow> TimeClip (MakeDate (Day t) (MakeTime hour minute sec ms)))"

subsection \<open>Facts about the calendar functions\<close>

lemma MonthFromTime_range: "0 \<le> MonthFromTime t \<and> MonthFromTime t \<le> 11"
  unfolding MonthFromTime_def Let_def by simp

lemma DateFromTime_MonthStart:
  "DateFromTime t = DayWithinYear t - MonthStart (MonthFromTime t) (InLeapYear t) + 1"
  unfolding DateFromTime_def MonthStart_def Let_def by simp

lemma MakeDay_fields:
  "MakeDay (YearFromTime t) (MonthFromTime t) dt = Day t + (dt - DateFromTime t)"
proof -
  have m: "MonthFromTime t div 12 = 0" "MonthFromTime t mod 12 = MonthFromTime t"
    using MonthFromTime_range [of t] by simp_all
  have "MakeDay (YearFromTime t) (MonthFromTime t) dt =
      DayFromYear (YearFromTime t) + MonthStart (MonthFromTime t) (InLeapYear t) + dt - 1"
    unfolding MakeDay_def Let_def m InLeapYear_def by simp
  also have "\<dots> = Day t + (dt - DateFromTime t)"
    unfolding DateFromTime_MonthStart DayWithinYear_def by simp
  finally show ?thesis .
qed

lemma Day_TimeWithinDay: "Day t * msPerDay + TimeWithinDay t = t"
  unfolding Day_def TimeWithinDay_def by simp

lemma Day_prev: "Day (t - msPerDay) = Day t - 1"
proof -
  have "(t + (- 1) * msPerDay) div msPerDay = - 1 + t div msPerDay"
    by (rule div_mult_self1) (simp add: msPerDay_def)
  then show ?thesis
    unfolding Day_def by simp
qed

lemma setUTCDate_yesterday:
  "setUTCDate (Some t) (Some (DateFromTime t - 1)) = TimeClip (t - msPerDay)"
proof -
  have "MakeDate (Day t + (DateFromTime t - 1 - DateFromTime t)) (TimeWithinDay t)
      = Day t * msPerDay + TimeWithinDay t - msPerDay"
    unfolding MakeDate_def by (simp add: algebra_simps)
  then show ?thesis
    unfolding setUTCDate_def by (simp add: MakeDay_fields Day_TimeWithinDay)
qed

lemma DaysInYear_le: "DaysInYear y \<le> 366"
  unfolding DaysInYear_def by simp

lemma DayFromYear_1970: "DayFromYear 1970 = 0"
  unfolding DayFromYear_def by simp

lemma DayFromYear_after: "0 \<le> k \<Longrightarrow> DayFromYear (1970 + k) \<le> 366 * k"
proof (induction k rule: int_ge_induct)
  case base
  show ?case by (simp add: DayFromYear_1970)
next
  case (step i)
  have "DayFromYear (1970 + i + 1) = DayFromYear (1970 + i) + DaysInYear (1970 + i)"
    by (rule DayFromYear_step)
  with step.IH DaysInYear_le [of "1970 + i"] show ?case
    by (simp add: add.assoc)
qed

lemma DayFromYear_before: "k \<le> 0 \<Longrightarrow> DayFromYear (1970 + k) \<le> 365 * k"
proof (induction k rule: int_le_induct)
  case base
  show ?case by (simp add: DayFromYear_1970)
next
  case (step i)
  have "DayFromYear (1970 + (i - 1) + 1) = DayFromYear (1970 + (i - 1)) + DaysInYear (1970 + (i - 1))"
    by (rule DayFromYear_step)
  then have "DayFromYear (1970 + i) = DayFromYear (1970 + (i - 1)) + DaysInYear (1970 + (i - 1))"
    by simp
  with step.IH DaysInYear_pos [of "1970 + (i - 1)"] show ?case
    by (simp add: algebra_simps)
qed

lemma year_guess:
  "DayFromYear (1970 + (if 0 \<le> d then d div 366 else d div 365)) \<le> d"
proof (cases "0 \<le> d")
  case True
  then have "0 \<le> d div 366"
    by simp
  then have "DayFromYear (1970 + d div 366) \<le> 366 * (d div 366)"
    by (rule DayFromYear_after)
  moreover have "366 * (d div 366) \<le> d"
    using mult_div_mod_eq [of 366 d] pos_mod_sign [of 366 d] by linarith
  ultimately show ?thesis using True by simp
next
  case False
  then have "d div 365 \<le> 0"
    using div_neg_pos_less0 [of d 365] by simp
  then have "DayFromYear (1970 + d div 365) \<le> 365 * (d div 365)"
    by (rule DayFromYear_before)
  moreover have "365 * (d div 365) \<le> d"
    using mult_div_mod_eq [of 365 d] pos_mod_sign [of 365 d] by linarith
  ultimately show ?thesis using False by simp
qed

lemma year_search_upper: "d < DayFromYear (year_search d y + 1)"
proof (induction d y rule: year_search.induct)
  case (1 d y)
  show ?case
  proof (cases "DayFromYear (y + 1) \<le> d")
    case True
    with "1.IH" show ?thesis
      by (simp add: year_search.simps [of d y])
  next
    case False
    then show ?thesis
      by (simp add: year_search.simps [of d y])
  qed
qed

lemma year_search_lower: "DayFromYear y \<le> d \<Longrightarrow> DayFromYear (year_search d y) \<le> d"
proof (induction d y rule: year_search.induct)
  case (1 d y)
  show ?case
  proof (cases "DayFromYear (y + 1) \<le> d")
    case True
    with "1.IH" show ?thesis
      by (simp add: year_search.simps [of d y])
  next
    case False
    with "1.prems" show ?thesis
      by (simp add: year_search.simps [of d y])
  qed
qed

lemma YearFromTime_days:
  "DayFromYear (YearFromTime t) \<le> Day t \<and> Day t < DayFromYear (YearFromTime t + 1)"
  unfolding YearFromTime_def Let_def
  using year_search_lower [OF year_guess [of "Day t"]] year_search_upper by simp

lemma DayFromYear_mono: "y \<le> z \<Longrightarrow> DayFromYear y \<le> DayFromYear z"
proof (induction z rule: int_ge_induct)
  case base
  show ?case by simp
next
  case (step i)
  with DayFromYear_less [of i] show ?case by linarith
qed

lemma Day_le_iff: "msPerDay * k \<le> t \<longleftrightarrow> k \<le> Day t"
proof
  assume "msPerDay * k \<le> t"
  then have "(msPerDay * k) div msPerDay \<le> t div msPerDay"
    by (rule zdiv_mono1) (simp add: msPerDay_def)
  then show "k \<le> Day t"
    by (simp add: Day_def msPerDay_def)
next
  assume "k \<le> Day t"
  then have "msPerDay * k \<le> msPerDay * (t div msPerDay)"
    by (simp add: Day_def msPerDay_def)
  also have "\<dots> \<le> t"
    using mult_div_mod_eq [of msPerDay t] pos_mod_sign [of msPerDay t]
    by (simp add: msPerDay_def)
  finally show "msPerDay * k \<le> t" .
qed

text \<open>
  \<open>YearFromTime\<close> meets the standard's definition: it is the largest year whose first
  instant is not after \<open>t\<close>.
\<close>

lemma YearFromTime_le: "TimeFromYear (YearFromTime t) \<le> t"
  unfolding TimeFromYear_def Day_le_iff using YearFromTime_days [of t] by simp

lemma YearFromTime_largest: "TimeFromYear y \<le> t \<Longrightarrow> y \<le> YearFromTime t"
proof (rule ccontr)
  assume a: "TimeFromYear y \<le> t" and "\<not> y \<le> YearFromTime t"
  then have "YearFromTime t + 1 \<le> y"
    by simp
  then have "DayFromYear (YearFromTime t + 1) \<le> DayFromYear y"
    by (rule DayFromYear_mono)
  moreover have "DayFromYear y \<le> Day t"
    using a unfolding TimeFromYear_def Day_le_iff .
  ultimately show False
    using YearFromTime_days [of t] by linarith
qed

lemma DayWithinYear_range:
  "0 \<le> DayWithinYear t \<and> DayWithinYear t < DaysInYear (YearFromTime t)"
  unfolding DayWithinYear_def
  using YearFromTime_days [of t] DayFromYear_step [of "YearFromTime t"] by linarith

lemma DateFromTime_range: "1 \<le> DateFromTime t \<and> DateFromTime t \<le> 31"
proof -
  have "DaysInYear (YearFromTime t) = 365 + InLeapYear t"
    unfolding InLeapYear_def DaysInYear_def by simp
  moreover have "InLeapYear t = 0 \<or> InLeapYear t = 1"
    unfolding InLeapYear_def by simp
  ultimately show ?thesis
    using DayWithinYear_range [of t]
    unfolding DateFromTime_def MonthFromTime_def Let_def
    by auto
qed

text \<open>
  The standard defines \<open>MakeDay\<close> through a time value whose year, month and date
  are the requested year and month and 1. The day number that \<open>MakeDay\<close> computes
  for date 1 is the day of such a time value.
\<close>

lemma MakeDay_first_of_month:
  assumes "0 \<le> m" "m \<le> 11"
  shows "MakeDay y m 1 = DayFromYear y + MonthStart m (if DaysInYear y = 365 then 0 else 1)"
proof -
  have "m div 12 = 0" "m mod 12 = m"
    using assms by simp_all
  then show ?thesis
    unfolding MakeDay_def Let_def by simp
qed

lemma YearFromTime_unique:
  assumes "DayFromYear y \<le> Day t" and "Day t < DayFromYear (y + 1)"
  shows "YearFromTime t = y"
proof (rule ccontr)
  assume ne: "YearFromTime t \<noteq> y"
  show False
  proof (cases "YearFromTime t < y")
    case True
    then have "DayFromYear (YearFromTime t + 1) \<le> DayFromYear y"
      by (intro DayFromYear_mono) simp
    with assms(1) YearFromTime_days [of t] show False
      by linarith
  next
    case False
    with ne have "DayFromYear (y + 1) \<le> DayFromYear (YearFromTime t)"
      by (intro DayFromYear_mono) simp
    with assms(2) YearFromTime_days [of t] show False
      by linarith
  qed
qed

lemma Day_of_day_start: "Day (d * msPerDay) = d"
  unfolding Day_def by (simp add: msPerDay_def)

lemma MonthStart_range:
  assumes "0 \<le> m" "m \<le> 11" "l = 0 \<or> l = 1"
  shows "0 \<le> MonthStart m l \<and> MonthStart m l < 365 + l"
  using assms(3) unfolding MonthStart_def by auto

lemma MonthFromTime_MonthStart:
  assumes "m = 0 \<or> m = 1 \<or> m = 2 \<or> m = 3 \<or> m = 4 \<or> m = 5 \<or> m = 6
      \<or> m = 7 \<or> m = 8 \<or> m = 9 \<or> m = 10 \<or> m = 11"
    and "InLeapYear t = 0 \<or> InLeapYear t = 1"
    and "DayWithinYear t = MonthStart m (InLeapYear t)"
  shows "MonthFromTime t = m"
  using assms(1,2) unfolding MonthFromTime_def Let_def assms(3)
  by (elim disjE) (simp_all add: MonthStart_def)

lemma MakeDay_meets_standard:
  assumes "0 \<le> m" "m \<le> 11"
  shows "YearFromTime (MakeDay y m 1 * msPerDay) = y
    \<and> MonthFromTime (MakeDay y m 1 * msPerDay) = m
    \<and> DateFromTime (MakeDay y m 1 * msPerDay) = 1"
proof -
  define l :: int where "l = (if DaysInYear y = 365 then 0 else 1)"
  define t where "t = MakeDay y m 1 * msPerDay"
  have l01: "l = 0 \<or> l = 1"
    unfolding l_def by simp
  have diy: "DaysInYear y = 365 + l"
    unfolding l_def DaysInYear_def by simp
  have cases: "m = 0 \<or> m = 1 \<or> m = 2 \<or> m = 3 \<or> m = 4 \<or> m = 5 \<or> m = 6
      \<or> m = 7 \<or> m = 8 \<or> m = 9 \<or> m = 10 \<or> m = 11"
    using assms by arith
  have day: "Day t = DayFromYear y + MonthStart m l"
    unfolding t_def Day_of_day_start l_def by (rule MakeDay_first_of_month [OF assms])
  have ms: "0 \<le> MonthStart m l \<and> MonthStart m l < 365 + l"
    using assms l01 by (rule MonthStart_range)
  have yr: "YearFromTime t = y"
  proof (rule YearFromTime_unique)
    show "DayFromYear y \<le> Day t"
      using day ms by simp
    show "Day t < DayFromYear (y + 1)"
      using day ms diy DayFromYear_step [of y] by simp
  qed
  have leap: "InLeapYear t = l"
    unfolding InLeapYear_def yr l_def by simp
  have dwy: "DayWithinYear t = MonthStart m (InLeapYear t)"
    unfolding DayWithinYear_def yr day leap by simp
  have mon: "MonthFromTime t = m"
    using cases l01 dwy unfolding leap [symmetric] by (rule MonthFromTime_MonthStart)
  have "DateFromTime t = 1"
    unfolding DateFromTime_MonthStart mon dwy by simp
  with yr mon show ?thesis
    unfolding t_def by simp
qed

text \<open>29 February 2000, evaluated.\<close>

lemma calendar_examples:
  "YearFromTime 951782400000 = 2000 \<and> MonthFromTime 951782400000 = 1 \<and> DateFromTime 951782400000 = 29"
  by code_simp

section \<open>The NutsTrackerCard component\<close>

text \<open>
  The component keeps three pieces of React state: \<^verbatim>\<open>nutsData\<close>, \<^verbatim>\<open>isLoading\<close> and
  \<^verbatim>\<open>error\<close>. Counts and timestamps are JavaScript numbers holding integers.
  \<^verbatim>\<open>DAILY_ALLOWANCE\<close> and \<^verbatim>\<open>RESET_HOUR_UTC\<close> are used by the file but declared
  nowhere in it, so every function that reads one takes it as a parameter. \<open>clock\<close>
  is the wall-clock time value that \<^verbatim>\<open>new Date()\<close> or \<^verbatim>\<open>Date.now()\<close> returns at the
  call.
\<close>

record nuts_data =
  sent :: int
  received :: int
  failedAttempts :: int
  lastUpdated :: int

record card_state =
  nutsData :: nuts_data
  isLoading :: bool
  error :: string

text \<open>The initial values handed to the three \<^verbatim>\<open>useState\<close> calls.\<close>

definition NutsTrackerCard_init :: "int \<Rightarrow> card_state" where
  "NutsTrackerCard_init clock =
     \<lparr>nutsData = \<lparr>sent = 0, received = 0, failedAttempts = 0, lastUpdated = clock\<rparr>,
      isLoading = True,
      error = []\<rparr>"

subsection \<open>calculateDailyAllowance\<close>

record allowance =
  remaining :: int
  nextReset :: "int option"

text \<open>
  \<open>js_less\<close> is \<^verbatim>\<open><\<close> on numbers, false when the left operand is NaN;
  \<open>js_minus\<close> and \<open>js_plus\<close> are \<^verbatim>\<open>-\<close> and \<^verbatim>\<open>+\<close> with a possibly-NaN left
  operand.
\<close>

definition js_less :: "int option \<Rightarrow> int \<Rightarrow> bool" where
  "js_less a b = (case a of None \<Rightarrow> False | Some x \<Rightarrow> x < b)"

definition js_minus :: "int option \<Rightarrow> int \<Rightarrow> int option" where
  "js_minus a b = map_option (\<lambda>x. x - b) a"

definition js_plus :: "int option \<Rightarrow> int \<Rightarrow> int option" where
  "js_plus a b = map_option (\<lambda>x. x + b) a"

text \<open>
  \<open>lastReset\<close> is the value of the local \<^verbatim>\<open>lastReset\<close> when the function
  returns: a copy of \<^verbatim>\<open>now\<close>, moved one day of the month back when the UTC hour is
  before the reset hour, then set to the reset hour with minutes, seconds and milliseconds
  zero.
\<close>

definition lastReset :: "int \<Rightarrow> int \<Rightarrow> int option" where
  "lastReset RESET_HOUR_UTC clock =
     (let now = Some clock;
          copy = now;
          moved =
            (if js_less (getUTCHours now) RESET_HOUR_UTC
             then setUTCDate copy (js_minus (getUTCDate now) 1)
             else copy)
      in setUTCHours moved RESET_HOUR_UTC 0 0 0)"

definition calculateDailyAllowance :: "int \<Rightarrow> int \<Rightarrow> int \<Rightarrow> card_state \<Rightarrow> allowance" where
  "calculateDailyAllowance DAILY_ALLOWANCE RESET_HOUR_UTC clock st =
     \<lparr>remaining = DAILY_ALLOWANCE - sent (nutsData st),
      nextReset = js_plus (getTime (lastReset RESET_HOUR_UTC clock)) 86400000\<rparr>"

subsection \<open>Counting the marker in a cast's text\<close>

text \<open>
  A JavaScript string is a sequence of 16-bit code units. The marker is U+1F95C, the
  surrogate pair D83E DD5C, and the regular expression has no \<^verbatim>\<open>u\<close> flag, so it matches
  that pair of code units. \<open>match_all\<close> is the global match: it scans from the left,
  and after a match continues behind it. \<^verbatim>\<open>String.prototype.match\<close> returns
  \<^verbatim>\<open>null\<close> when nothing matches.
\<close>

type_synonym jsstring = "16 word list"

definition NUT :: jsstring where
  "NUT = [0xD83E, 0xDD5C]"

fun match_all :: "jsstring \<Rightarrow> jsstring list" where
  "match_all (a # b # rest) =
     (if [a, b] = NUT then [a, b] # match_all rest else match_all (b # rest))"
| "match_all _ = []"

definition String_match :: "jsstring \<Rightarrow> jsstring list option" where
  "String_match s = (case match_all s of [] \<Rightarrow> None | m # ms \<Rightarrow> Some (m # ms))"

definition nut_count :: "jsstring \<Rightarrow> int" where
  "nut_count s = int (length (case String_match s of None \<Rightarrow> [] | Some ms \<Rightarrow> ms))"

subsection \<open>fetchNutsData\<close>

text \<open>
  The response is typed \<^verbatim>\<open>any\<close>. A cast's \<^verbatim>\<open>author\<close> and \<^verbatim>\<open>parent_author\<close> are
  objects that may be absent, their \<^verbatim>\<open>fid\<close> a number that may be absent or
  \<^verbatim>\<open>null\<close>, and \<^verbatim>\<open>text\<close> a string that may be absent. Reading a property of an
  absent object and calling \<^verbatim>\<open>match\<close> on an absent text throw a TypeError;
  \<^verbatim>\<open>parent_author?.fid\<close> does not throw.
\<close>

record user =
  fid :: "int option"

record cast =
  author :: "user option"
  parent_author :: "user option"
  cast_text :: "jsstring option"

datatype js_error = FetchRejected | JsonRejected | TypeError

text \<open>
  What one call receives from the network: \<^verbatim>\<open>fetch\<close> rejects, or
  \<^verbatim>\<open>response.json()\<close> rejects, or the body parses; the parsed body's \<^verbatim>\<open>casts\<close> is
  \<open>None\<close> when it is not an array.
\<close>

datatype response = FetchFails | JsonFails | Body "cast list option"

definition text_match_length :: "cast \<Rightarrow> js_error + int" where
  "text_match_length c =
     (case cast_text c of None \<Rightarrow> Inl TypeError | Some s \<Rightarrow> Inr (nut_count s))"

text \<open>The callback of \<^verbatim>\<open>forEach\<close>, on the pair of the two counters.\<close>

definition forEach_callback :: "int \<Rightarrow> cast \<Rightarrow> int \<times> int \<Rightarrow> js_error + int \<times> int" where
  "forEach_callback my_fid c acc =
     (case acc of (sentNuts, receivedNuts) \<Rightarrow>
        (case author c of
           None \<Rightarrow> Inl TypeError
         | Some a \<Rightarrow>
             (case (if fid a = Some my_fid
                    then (case text_match_length c of
                            Inl e \<Rightarrow> Inl e
                          | Inr n \<Rightarrow> Inr (sentNuts + n))
                    else Inr sentNuts) of
                Inl e \<Rightarrow> Inl e
              | Inr sentNuts' \<Rightarrow>
                  (if (case parent_author c of None \<Rightarrow> None | Some p \<Rightarrow> fid p) = Some my_fid
                   then (case text_match_length c of
                           Inl e \<Rightarrow> Inl e
                         | Inr n \<Rightarrow> Inr (sentNuts', receivedNuts + n))
                   else Inr (sentNuts', receivedNuts)))))"

fun casts_forEach :: "int \<Rightarrow> cast list \<Rightarrow> int \<times> int \<Rightarrow> js_error + int \<times> int" where
  "casts_forEach my_fid [] acc = Inr acc"
| "casts_forEach my_fid (c # cs) acc =
     (case forEach_callback my_fid c acc of
        Inl e \<Rightarrow> Inl e
      | Inr acc' \<Rightarrow> casts_forEach my_fid cs acc')"

text \<open>
  The body of the \<^verbatim>\<open>try\<close> block up to the loop's end: the error thrown, or the final
  \<^verbatim>\<open>(sentNuts, receivedNuts)\<close>.
\<close>

definition count_nuts :: "int \<Rightarrow> response \<Rightarrow> js_error + int \<times> int" where
  "count_nuts my_fid resp =
     (case resp of
        FetchFails \<Rightarrow> Inl FetchRejected
      | JsonFails \<Rightarrow> Inl JsonRejected
      | Body None \<Rightarrow> Inl TypeError
      | Body (Some casts) \<Rightarrow> casts_forEach my_fid casts (0, 0))"

text \<open>
  One call of \<^verbatim>\<open>fetchNutsData\<close>, from the state before it to the state after its
  \<^verbatim>\<open>finally\<close> block. The updater passed to \<^verbatim>\<open>setNutsData\<close> reads the previous
  \<^verbatim>\<open>failedAttempts\<close>; \<open>clock\<close> is what \<^verbatim>\<open>Date.now()\<close> returns in it.
\<close>

definition fetchNutsData :: "int \<Rightarrow> int \<Rightarrow> response \<Rightarrow> int \<Rightarrow> card_state \<Rightarrow> card_state" where
  "fetchNutsData DAILY_ALLOWANCE my_fid resp clock st =
     (case count_nuts my_fid resp of
        Inr (sentNuts, receivedNuts) \<Rightarrow>
          st\<lparr>nutsData :=
               \<lparr>sent = sentNuts,
                received = receivedNuts,
                failedAttempts =
                  failedAttempts (nutsData st) + (if sentNuts > DAILY_ALLOWANCE then 1 else 0),
                lastUpdated = clock\<rparr>,
             error := [],
             isLoading := False\<rparr>
      | Inl e \<Rightarrow>
          st\<lparr>error := ''Failed to fetch nuts data'', isLoading := False\<rparr>)"

text \<open>
  The effect runs \<^verbatim>\<open>fetchNutsData\<close> once at mount and then on every tick of the
  interval; a run of the component is the list of what each call received and when.
\<close>

fun refresh_cycles :: "int \<Rightarrow> int \<Rightarrow> (response \<times> int) list \<Rightarrow> card_state \<Rightarrow> card_state" where
  "refresh_cycles DAILY_ALLOWANCE my_fid [] st = st"
| "refresh_cycles DAILY_ALLOWANCE my_fid ((resp, clock) # rest) st =
     refresh_cycles DAILY_ALLOWANCE my_fid rest (fetchNutsData DAILY_ALLOWANCE my_fid resp clock st)"

subsection \<open>What the component renders\<close>

text \<open>
  The error message wins over the loading placeholder, and both over the card. Of the
  card only the three integer figures are modelled.
\<close>

record card_figures =
  total_received :: int
  daily_remaining :: int
  sent_today :: int

datatype view = ErrorDiv string | LoadingDiv | Card card_figures

definition card :: "int \<Rightarrow> int \<Rightarrow> int \<Rightarrow> card_state \<Rightarrow> card_figures" where
  "card DAILY_ALLOWANCE RESET_HOUR_UTC clock st =
     (let r = remaining (calculateDailyAllowance DAILY_ALLOWANCE RESET_HOUR_UTC clock st)
      in \<lparr>total_received = received (nutsData st),
          daily_remaining = (if r > 0 then r else 0),
          sent_today = sent (nutsData st)\<rparr>)"

definition render :: "int \<Rightarrow> int \<Rightarrow> int \<Rightarrow> card_state \<Rightarrow> view" where
  "render DAILY_ALLOWANCE RESET_HOUR_UTC clock st =
     (if error st \<noteq> [] then ErrorDiv (error st)
      else if isLoading st then LoadingDiv
      else Card (card DAILY_ALLOWANCE RESET_HOUR_UTC clock st))"

section \<open>The reset boundary\<close>

text \<open>
  The specification's reading of the boundary: the reset hour, with minutes, seconds and
  milliseconds zero, on the previous UTC day when the UTC hour of \<open>now\<close> is before
  the reset hour, and on the UTC day of \<open>now\<close> otherwise. \<open>MakeDate d (MakeTime h 0 0 0)\<close>
  is the instant \<open>h\<close>:00:00.000 of day number \<open>d\<close>.
\<close>

definition reset_boundary_spec :: "int \<Rightarrow> int \<Rightarrow> int" where
  "reset_boundary_spec resetHourUtc now =
     (if HourFromTime now < resetHourUtc
      then MakeDate (Day now - 1) (MakeTime resetHourUtc 0 0 0)
      else MakeDate (Day now) (MakeTime resetHourUtc 0 0 0))"

lemma setUTCHours_Some:
  "setUTCHours (Some t) h 0 0 0 = TimeClip (Day t * msPerDay + h * msPerHour)"
  unfolding setUTCHours_def MakeDate_def MakeTime_def by simp

lemma Day_bounds: "Day t * msPerDay \<le> t \<and> t < Day t * msPerDay + msPerDay"
proof -
  have "0 \<le> TimeWithinDay t \<and> TimeWithinDay t < msPerDay"
    unfolding TimeWithinDay_def by (simp add: msPerDay_def)
  with Day_TimeWithinDay [of t] show ?thesis
    by linarith
qed

lemma Day_min: "- 8640000000000000 \<le> t \<Longrightarrow> - 8640000000000000 \<le> Day t * msPerDay"
proof -
  assume "- 8640000000000000 \<le> t"
  then have "msPerDay * (- 100000000) \<le> t"
    by (simp add: msPerDay_def)
  then have "- 100000000 \<le> Day t"
    by (simp only: Day_le_iff)
  then show ?thesis
    by (simp add: msPerDay_def)
qed

lemma TimeWithinDay_hour:
  "TimeWithinDay t = msPerHour * HourFromTime t + t mod msPerHour"
proof -
  have "t mod (msPerHour * 24) = msPerHour * (t div msPerHour mod 24) + t mod msPerHour"
    by (rule zmod_zmult2_eq) simp
  then show ?thesis
    unfolding TimeWithinDay_def HourFromTime_def by (simp add: msPerDay_def msPerHour_def)
qed

lemma hour_le_TimeWithinDay:
  assumes "h \<le> HourFromTime t"
  shows "h * msPerHour \<le> TimeWithinDay t"
proof -
  have "0 \<le> t mod msPerHour"
    by (simp add: msPerHour_def)
  moreover have "h * msPerHour \<le> HourFromTime t * msPerHour"
    using assms by (simp add: msPerHour_def)
  ultimately show ?thesis
    unfolding TimeWithinDay_hour by (simp add: mult.commute)
qed

lemma TimeClip_Some: "- 8640000000000000 \<le> t \<Longrightarrow> t \<le> 8640000000000000 \<Longrightarrow> TimeClip t = Some t"
  unfolding TimeClip_def by simp

lemma MakeDate_reset_hour:
  assumes "0 \<le> h" "h \<le> 23"
  shows "Day (MakeDate d (MakeTime h 0 0 0)) = d"
    and "TimeWithinDay (MakeDate d (MakeTime h 0 0 0)) = h * msPerHour"
    and "HourFromTime (MakeDate d (MakeTime h 0 0 0)) = h"
proof -
  have e: "MakeDate d (MakeTime h 0 0 0) = msPerDay * d + h * msPerHour"
    unfolding MakeDate_def MakeTime_def by simp
  have r: "0 \<le> h * msPerHour" "h * msPerHour < msPerDay"
    using assms by (simp_all add: msPerHour_def msPerDay_def)
  show "Day (MakeDate d (MakeTime h 0 0 0)) = d"
    unfolding Day_def by (rule int_div_pos_eq [OF e r])
  show w: "TimeWithinDay (MakeDate d (MakeTime h 0 0 0)) = h * msPerHour"
    unfolding TimeWithinDay_def by (rule int_mod_pos_eq [OF e r])
  have "msPerDay * d + h * msPerHour = msPerHour * (24 * d + h) + 0"
    by (simp add: msPerDay_def msPerHour_def algebra_simps)
  then have "(msPerDay * d + h * msPerHour) div msPerHour = 24 * d + h"
    by (rule int_div_pos_eq) (simp_all add: msPerHour_def)
  moreover have "(24 * d + h) mod 24 = h"
    by (rule int_mod_pos_eq [of _ _ d]) (use assms in simp_all)
  ultimately show "HourFromTime (MakeDate d (MakeTime h 0 0 0)) = h"
    unfolding HourFromTime_def e by simp
qed

lemma lastReset_value:
  assumes h: "0 \<le> h" "h \<le> 23"
    and lo: "- 8640000000000000 + msPerDay \<le> clock"
    and hi: "clock \<le> 8640000000000000"
  shows "lastReset h clock =
    Some (MakeDate (Day clock - (if HourFromTime clock < h then 1 else 0)) (MakeTime h 0 0 0))"
proof (cases "HourFromTime clock < h")
  case True
  have lo': "- 8640000000000000 \<le> clock - msPerDay"
    using lo by simp
  have c1: "TimeClip (clock - msPerDay) = Some (clock - msPerDay)"
    using lo' hi by (intro TimeClip_Some) (simp_all add: msPerDay_def)
  have b1: "- 8640000000000000 \<le> Day (clock - msPerDay) * msPerDay"
    using lo' by (rule Day_min)
  have b2: "Day (clock - msPerDay) * msPerDay \<le> clock - msPerDay"
    using Day_bounds [of "clock - msPerDay"] by simp
  have hr: "0 \<le> h * msPerHour" "h * msPerHour < msPerDay"
    using h by (simp_all add: msPerHour_def msPerDay_def)
  have c2: "TimeClip (Day (clock - msPerDay) * msPerDay + h * msPerHour)
      = Some (Day (clock - msPerDay) * msPerDay + h * msPerHour)"
    using b1 b2 hr hi by (intro TimeClip_Some) linarith+
  have "lastReset h clock = setUTCHours (setUTCDate (Some clock) (Some (DateFromTime clock - 1))) h 0 0 0"
    using True unfolding lastReset_def Let_def js_less_def js_minus_def getUTCHours_def getUTCDate_def
    by simp
  also have "\<dots> = Some (Day (clock - msPerDay) * msPerDay + h * msPerHour)"
    by (simp only: setUTCDate_yesterday c1 setUTCHours_Some c2)
  finally show ?thesis
    using True by (simp add: Day_prev MakeDate_def MakeTime_def)
next
  case False
  have lo': "- 8640000000000000 \<le> clock"
    using lo by (simp add: msPerDay_def)
  have b1: "- 8640000000000000 \<le> Day clock * msPerDay"
    using lo' by (rule Day_min)
  have "h * msPerHour \<le> TimeWithinDay clock"
    using False by (intro hour_le_TimeWithinDay) simp
  then have b2: "Day clock * msPerDay + h * msPerHour \<le> clock"
    using Day_TimeWithinDay [of clock] by linarith
  have hr: "0 \<le> h * msPerHour"
    using h by (simp add: msPerHour_def)
  have c2: "TimeClip (Day clock * msPerDay + h * msPerHour) = Some (Day clock * msPerDay + h * msPerHour)"
    using b1 b2 hr hi by (intro TimeClip_Some) linarith+
  have "lastReset h clock = setUTCHours (Some clock) h 0 0 0"
    using False unfolding lastReset_def Let_def js_less_def getUTCHours_def
    by simp
  also have "\<dots> = Some (Day clock * msPerDay + h * msPerHour)"
    by (simp only: setUTCHours_Some c2)
  finally show ?thesis
    using False by (simp add: MakeDate_def MakeTime_def)
qed

text \<open>
  The function evaluated where the previous day lies in another month (05:00 on
  1 March 2025, reset hour 12) and in another year (01:00 on 1 January 2025, reset
  hour 6).
\<close>

lemma lastReset_first_of_month: "lastReset 12 1740805200000 = Some 1740744000000"
  by code_simp

lemma lastReset_new_year: "lastReset 6 1735693200000 = Some 1735624800000"
  by code_simp

text \<open>
  Within the first day of the range of time values, the step back leaves the range: the
  Date becomes invalid and stays so. No wall clock reads such a time.
\<close>

lemma lastReset_range_start: "lastReset 1 (- 8640000000000000) = None"
proof -
  have "HourFromTime (- 8640000000000000) = 0"
    by (simp add: HourFromTime_def msPerHour_def)
  moreover have "TimeClip (- 8640000000000000 - msPerDay) = None"
    by (simp add: TimeClip_def msPerDay_def)
  ultimately show ?thesis
    unfolding lastReset_def Let_def js_less_def js_minus_def getUTCHours_def getUTCDate_def
    by (simp add: setUTCDate_yesterday setUTCHours_def)
qed

text \<open>
  The boundary is not after \<open>now\<close> and less than a day before it: it is the most recent
  instant at the reset hour.
\<close>

lemma reset_boundary_spec_recent:
  assumes "0 \<le> h" "h \<le> 23"
  shows "reset_boundary_spec h now \<le> now \<and> now < reset_boundary_spec h now + msPerDay"
proof -
  have d: "Day now * msPerDay + TimeWithinDay now = now"
    by (rule Day_TimeWithinDay)
  have w: "TimeWithinDay now = msPerHour * HourFromTime now + now mod msPerHour"
    by (rule TimeWithinDay_hour)
  have m: "0 \<le> now mod msPerHour" "now mod msPerHour < msPerHour"
    by (simp_all add: msPerHour_def)
  show ?thesis
  proof (cases "HourFromTime now < h")
    case True
    then have "msPerHour * (HourFromTime now + 1) \<le> msPerHour * h"
      by (simp add: msPerHour_def)
    then have "msPerHour * HourFromTime now + msPerHour \<le> h * msPerHour"
      by (simp add: algebra_simps)
    moreover have "h * msPerHour < msPerDay"
      using assms by (simp add: msPerHour_def msPerDay_def)
    moreover have "0 \<le> msPerHour * HourFromTime now"
      by (simp add: HourFromTime_def msPerHour_def)
    ultimately show ?thesis
      using True d w m
      unfolding reset_boundary_spec_def MakeDate_def MakeTime_def
      by (simp add: algebra_simps)
  next
    case False
    then have "h * msPerHour \<le> TimeWithinDay now"
      by (intro hour_le_TimeWithinDay) simp
    moreover have "TimeWithinDay now < msPerDay"
      unfolding TimeWithinDay_def by (simp add: msPerDay_def)
    moreover have "0 \<le> h * msPerHour"
      using assms by (simp add: msPerHour_def)
    ultimately show ?thesis
      using False d
      unfolding reset_boundary_spec_def MakeDate_def MakeTime_def
      by (simp add: algebra_simps)
  qed
qed

section \<open>The aggregation as the specification words it\<close>

text \<open>
  \<open>occurrences marker s\<close> counts the positions of \<open>s\<close> at which \<open>marker\<close> stands
  as a substring: a literal count, with no regard to what surrounds an occurrence.
\<close>

definition occurrences :: "jsstring \<Rightarrow> jsstring \<Rightarrow> nat" where
  "occurrences marker s =
     length (filter (\<lambda>i. take (length marker) (drop i s) = marker) [0..<length s])"

text \<open>
  The match of the source skips behind each match, so in general it counts
  non-overlapping matches only. The two code units of the marker differ, so its
  occurrences never overlap and the two counts agree.
\<close>

lemma occurrences_Nil: "occurrences NUT [] = 0"
  unfolding occurrences_def by simp

lemma occurrences_Cons:
  "occurrences NUT (a # s) = (if take 2 (a # s) = NUT then 1 else 0) + occurrences NUT s"
proof -
  have "[0..<Suc (length s)] = 0 # [Suc 0..<Suc (length s)]"
    by (rule upt_conv_Cons) simp
  moreover have "length (a # s) = Suc (length s)"
    by simp
  ultimately have "[0..<length (a # s)] = 0 # map Suc [0..<length s]"
    by (simp only: map_Suc_upt)
  then show ?thesis
    unfolding occurrences_def by (simp add: filter_map comp_def NUT_def)
qed

lemma occurrences_single: "occurrences NUT [a] = 0"
  by (simp add: occurrences_Cons occurrences_Nil) (simp add: NUT_def)

lemma match_all_length: "length (match_all s) = occurrences NUT s"
proof (induction s rule: match_all.induct)
  case (1 a b rest)
  show ?case
  proof (cases "[a, b] = NUT")
    case True
    then have "take 2 (b # rest) \<noteq> NUT"
      by (cases rest) (auto simp: NUT_def)
    with True "1.IH"(1) show ?thesis
      by (simp add: occurrences_Cons [of a] occurrences_Cons [of b])
  next
    case False
    with "1.IH"(2) show ?thesis
      by (simp add: occurrences_Cons [of a])
  qed
qed (simp_all add: occurrences_Nil occurrences_single)

lemma nut_count_occurrences: "nut_count s = int (occurrences NUT s)"
  unfolding nut_count_def String_match_def
  by (simp add: match_all_length [symmetric] split: list.splits)

lemma occ_example:
  "occurrences NUT [0x78, 0xD83E, 0xDD5C, 0xD83E, 0xDD5C, 0x79, 0xD83E] = 2"
  by (simp add: occurrences_def NUT_def)

text \<open>
  A feed event of the specification has an author id, an optional parent author id and a
  text. Read off a cast: the ids are the \<open>fid\<close>s of \<open>author\<close> and
  \<open>parent_author\<close>, and \<open>markers\<close> is the number of occurrences of the marker in the
  text. A cast is well formed when it has the author and the text that every feed event
  has. \<open>aggregate_spec\<close> is the pair of sums of the specification.
\<close>

definition authorId :: "cast \<Rightarrow> int option" where
  "authorId e = (case author e of None \<Rightarrow> None | Some a \<Rightarrow> fid a)"

definition parentAuthorId :: "cast \<Rightarrow> int option" where
  "parentAuthorId e = (case parent_author e of None \<Rightarrow> None | Some p \<Rightarrow> fid p)"

definition markers :: "cast \<Rightarrow> int" where
  "markers e = (case cast_text e of None \<Rightarrow> 0 | Some s \<Rightarrow> int (occurrences NUT s))"

definition aggregate_spec :: "int \<Rightarrow> cast list \<Rightarrow> int \<times> int" where
  "aggregate_spec subjectId events =
     (sum_list (map markers (filter (\<lambda>e. authorId e = Some subjectId) events)),
      sum_list (map markers (filter (\<lambda>e. parentAuthorId e = Some subjectId) events)))"

definition well_formed :: "cast \<Rightarrow> bool" where
  "well_formed e = (author e \<noteq> None \<and> cast_text e \<noteq> None)"

lemma forEach_callback_well_formed:
  assumes "well_formed e"
  shows "forEach_callback f e (sn, rn) =
    Inr (sn + (if authorId e = Some f then markers e else 0),
         rn + (if parentAuthorId e = Some f then markers e else 0))"
proof -
  from assms obtain a s where "author e = Some a" "cast_text e = Some s"
    unfolding well_formed_def by auto
  then show ?thesis
    unfolding forEach_callback_def text_match_length_def authorId_def parentAuthorId_def
      markers_def nut_count_occurrences
    by simp
qed

lemma casts_forEach_well_formed:
  assumes "list_all well_formed events"
  shows "casts_forEach f events (sn, rn) =
    Inr (sn + fst (aggregate_spec f events), rn + snd (aggregate_spec f events))"
  using assms
proof (induction events arbitrary: sn rn)
  case Nil
  show ?case by (simp add: aggregate_spec_def)
next
  case (Cons e events)
  then have e: "well_formed e" and rest: "list_all well_formed events"
    by simp_all
  show ?case
    by (simp add: forEach_callback_well_formed [OF e] Cons.IH [OF rest] aggregate_spec_def)
qed

lemma count_nuts_well_formed:
  assumes "list_all well_formed events"
  shows "count_nuts f (Body (Some events)) = Inr (aggregate_spec f events)"
  unfolding count_nuts_def using casts_forEach_well_formed [OF assms, of f 0 0] by simp

section \<open>One refresh cycle\<close>

lemma fetchNutsData_success:
  assumes "count_nuts f resp = Inr (s, r)"
  shows "fetchNutsData A f resp clock st =
    \<lparr>nutsData = \<lparr>sent = s, received = r,
                  failedAttempts = failedAttempts (nutsData st) + (if A < s then 1 else 0),
                  lastUpdated = clock\<rparr>,
     isLoading = False, error = []\<rparr>"
  unfolding fetchNutsData_def using assms by simp

lemma fetchNutsData_failure:
  assumes "count_nuts f resp = Inl e"
  shows "fetchNutsData A f resp clock st =
    \<lparr>nutsData = nutsData st, isLoading = False, error = ''Failed to fetch nuts data''\<rparr>"
  unfolding fetchNutsData_def using assms by simp

lemma fetchNutsData_failedAttempts_mono:
  "failedAttempts (nutsData st) \<le> failedAttempts (nutsData (fetchNutsData A f resp clock st))"
proof (cases "count_nuts f resp")
  case (Inl e)
  then show ?thesis by (simp add: fetchNutsData_failure)
next
  case (Inr p)
  then show ?thesis by (cases p) (simp add: fetchNutsData_success)
qed

lemma refresh_cycles_failedAttempts_mono:
  "failedAttempts (nutsData st) \<le> failedAttempts (nutsData (refresh_cycles A f run st))"
proof (induction run arbitrary: st)
  case Nil
  show ?case by simp
next
  case (Cons c run)
  obtain resp clock where c: "c = (resp, clock)"
    by (cases c)
  have "failedAttempts (nutsData st) \<le> failedAttempts (nutsData (fetchNutsData A f resp clock st))"
    by (rule fetchNutsData_failedAttempts_mono)
  also have "\<dots> \<le> failedAttempts (nutsData (refresh_cycles A f run (fetchNutsData A f resp clock st)))"
    by (rule Cons.IH)
  finally show ?case
    by (simp add: c)
qed

lemma fetchNutsData_isLoading: "\<not> isLoading (fetchNutsData A f resp clock st)"
proof (cases "count_nuts f resp")
  case (Inl e)
  then show ?thesis by (simp add: fetchNutsData_failure)
next
  case (Inr p)
  then show ?thesis by (cases p) (simp add: fetchNutsData_success)
qed

lemma refresh_cycles_isLoading:
  "run \<noteq> [] \<Longrightarrow> \<not> isLoading (refresh_cycles A f run st)"
proof (induction run arbitrary: st)
  case Nil
  then show ?case by simp
next
  case (Cons c run)
  obtain resp clock where c: "c = (resp, clock)"
    by (cases c)
  show ?case
  proof (cases "run = []")
    case True
    then show ?thesis by (simp add: c fetchNutsData_isLoading)
  next
    case False
    then show ?thesis by (simp add: c Cons.IH)
  qed
qed

text \<open>Two batches used as examples: one cast of the subject with 35 markers, one with 10.\<close>

lemma count35: "count_nuts 7 (Body (Some [\<lparr>author = Some \<lparr>fid = Some 7\<rparr>, parent_author = None,
        cast_text = Some (concat (replicate 35 NUT))\<rparr>])) = Inr (35, 0)"
  by code_simp

lemma count10: "count_nuts 7 (Body (Some [\<lparr>author = Some \<lparr>fid = Some 7\<rparr>, parent_author = None,
        cast_text = Some (concat (replicate 10 NUT))\<rparr>])) = Inr (10, 0)"
  by (simp add: count_nuts_def forEach_callback_def text_match_length_def nut_count_def String_match_def NUT_def numeral_eq_Suc)

section \<open>The claims\<close>

text \<open>
  C1, as amended. \<open>calculateDailyAllowance\<close> returns
  \<open>remaining = DAILY_ALLOWANCE - sent\<close> with no clamp, so the value it returns is
  negative whenever more than the allowance was sent. The clamp at zero is applied where
  the card renders the figure "Daily Remaining": the figure shown is
  \<open>max 0 (DAILY_ALLOWANCE - sent)\<close> and is never negative.
\<close>

theorem remaining_unclamped_shown_clamped:
  "remaining (calculateDailyAllowance A h clock st) = A - sent (nutsData st)
   \<and> daily_remaining (card A h clock st) = max 0 (A - sent (nutsData st))
   \<and> 0 \<le> daily_remaining (card A h clock st)"
  unfolding card_def calculateDailyAllowance_def Let_def by simp

theorem remaining_unclamped_shown_clamped_witness:
  "remaining (calculateDailyAllowance 30 0 1739163600000
      \<lparr>nutsData = \<lparr>sent = 12, received = 0, failedAttempts = 0, lastUpdated = 1739163599000\<rparr>,
       isLoading = False, error = []\<rparr>) = 18
   \<and> daily_remaining (card 30 0 1739163600000
      \<lparr>nutsData = \<lparr>sent = 35, received = 0, failedAttempts = 1, lastUpdated = 1739163599000\<rparr>,
       isLoading = False, error = []\<rparr>) = 0"
  using remaining_unclamped_shown_clamped [of 30 0 1739163600000
      "\<lparr>nutsData = \<lparr>sent = 12, received = 0, failedAttempts = 0, lastUpdated = 1739163599000\<rparr>,
       isLoading = False, error = []\<rparr>"]
    remaining_unclamped_shown_clamped [of 30 0 1739163600000
      "\<lparr>nutsData = \<lparr>sent = 35, received = 0, failedAttempts = 1, lastUpdated = 1739163599000\<rparr>,
       isLoading = False, error = []\<rparr>"]
  by simp

text \<open>
  C1 as stated fails: with an allowance of 30 and 35 sent, the function returns
  \<open>remaining = -5\<close>, which is negative and is not \<open>max 0 (30 - 35)\<close>.
\<close>

theorem remaining_negative_counterexample:
  "remaining (calculateDailyAllowance 30 0 1739163600000
      \<lparr>nutsData = \<lparr>sent = 35, received = 0, failedAttempts = 1, lastUpdated = 1739163599000\<rparr>,
       isLoading = False, error = []\<rparr>) = - 5
   \<and> remaining (calculateDailyAllowance 30 0 1739163600000
      \<lparr>nutsData = \<lparr>sent = 35, received = 0, failedAttempts = 1, lastUpdated = 1739163599000\<rparr>,
       isLoading = False, error = []\<rparr>) \<noteq> max 0 (30 - 35)
   \<and> remaining (calculateDailyAllowance 30 0 1739163600000
      \<lparr>nutsData = \<lparr>sent = 35, received = 0, failedAttempts = 1, lastUpdated = 1739163599000\<rparr>,
       isLoading = False, error = []\<rparr>) < 0"
  unfolding calculateDailyAllowance_def by simp

text \<open>
  C2. For a reset hour in 0..23 and a wall-clock time \<open>clock\<close> that is a valid time
  value at least one day above the smallest one, the boundary that
  \<open>calculateDailyAllowance\<close> computes is the reset hour (minutes, seconds and
  milliseconds zero) on the previous UTC day when the UTC hour of \<open>clock\<close> is
  strictly before the reset hour and on the UTC day of \<open>clock\<close> otherwise, and the
  returned \<open>nextReset\<close> is that boundary plus exactly 86,400,000 milliseconds.
\<close>

theorem nextReset_is_boundary_plus_one_day:
  assumes "0 \<le> h" and "h \<le> 23"
    and "- 8640000000000000 + msPerDay \<le> clock"
    and "clock \<le> 8640000000000000"
  shows "lastReset h clock = Some (reset_boundary_spec h clock)
    \<and> nextReset (calculateDailyAllowance A h clock st) = Some (reset_boundary_spec h clock + 86400000)"
proof -
  have "lastReset h clock = Some (reset_boundary_spec h clock)"
    unfolding lastReset_value [OF assms] reset_boundary_spec_def by simp
  then show ?thesis
    unfolding calculateDailyAllowance_def js_plus_def getTime_def by simp
qed

theorem nextReset_is_boundary_plus_one_day_witness:
  "lastReset 0 1739163600000 = Some 1739145600000
   \<and> nextReset (calculateDailyAllowance 30 0 1739163600000 (NutsTrackerCard_init 1739163600000))
       = Some 1739232000000
   \<and> lastReset 12 1740805200000 = Some 1740744000000
   \<and> nextReset (calculateDailyAllowance 30 12 1740805200000 (NutsTrackerCard_init 1740805200000))
       = Some 1740830400000"
  using nextReset_is_boundary_plus_one_day [of 0 1739163600000 30 "NutsTrackerCard_init 1739163600000"]
    nextReset_is_boundary_plus_one_day [of 12 1740805200000 30 "NutsTrackerCard_init 1740805200000"]
  by (simp add: reset_boundary_spec_def HourFromTime_def Day_def MakeDate_def MakeTime_def
      msPerDay_def msPerHour_def msPerMinute_def msPerSecond_def)

text \<open>
  C3. \<open>failedAttempts\<close> never decreases, over one call of \<open>fetchNutsData\<close> and over
  any run of calls. A call whose aggregation succeeds with \<open>sent = s\<close> adds exactly 1
  when \<open>s\<close> strictly exceeds the allowance and adds nothing otherwise. The new value
  does not depend on the \<open>sent\<close> and \<open>received\<close> of earlier cycles.
\<close>

theorem failedAttempts_never_decreases:
  "failedAttempts (nutsData st) \<le> failedAttempts (nutsData (fetchNutsData A f resp clock st))
   \<and> failedAttempts (nutsData st) \<le> failedAttempts (nutsData (refresh_cycles A f run st))
   \<and> (\<forall>s r. count_nuts f resp = Inr (s, r) \<longrightarrow>
         failedAttempts (nutsData (fetchNutsData A f resp clock st))
           = failedAttempts (nutsData st) + (if A < s then 1 else 0))
   \<and> failedAttempts (nutsData (fetchNutsData A f resp clock
          (st\<lparr>nutsData := (nutsData st)\<lparr>sent := x, received := y\<rparr>\<rparr>)))
       = failedAttempts (nutsData (fetchNutsData A f resp clock st))"
proof (intro conjI allI impI)
  show "failedAttempts (nutsData st) \<le> failedAttempts (nutsData (fetchNutsData A f resp clock st))"
    by (rule fetchNutsData_failedAttempts_mono)
  show "failedAttempts (nutsData st) \<le> failedAttempts (nutsData (refresh_cycles A f run st))"
    by (rule refresh_cycles_failedAttempts_mono)
  show "failedAttempts (nutsData (fetchNutsData A f resp clock st))
      = failedAttempts (nutsData st) + (if A < s then 1 else 0)"
    if "count_nuts f resp = Inr (s, r)" for s r
    using that by (simp add: fetchNutsData_success)
  show "failedAttempts (nutsData (fetchNutsData A f resp clock
          (st\<lparr>nutsData := (nutsData st)\<lparr>sent := x, received := y\<rparr>\<rparr>)))
       = failedAttempts (nutsData (fetchNutsData A f resp clock st))"
  proof (cases "count_nuts f resp")
    case (Inl e)
    then show ?thesis by (simp add: fetchNutsData_failure)
  next
    case (Inr p)
    then show ?thesis by (cases p) (simp add: fetchNutsData_success)
  qed
qed

theorem failedAttempts_never_decreases_witness:
  "failedAttempts (nutsData (fetchNutsData 30 7
      (Body (Some [\<lparr>author = Some \<lparr>fid = Some 7\<rparr>, parent_author = None,
        cast_text = Some (concat (replicate 35 NUT))\<rparr>])) 2000 (NutsTrackerCard_init 1000))) = 1
   \<and> failedAttempts (nutsData (fetchNutsData 30 7
      (Body (Some [\<lparr>author = Some \<lparr>fid = Some 7\<rparr>, parent_author = None,
        cast_text = Some (concat (replicate 10 NUT))\<rparr>])) 3000
      \<lparr>nutsData = \<lparr>sent = 35, received = 0, failedAttempts = 1, lastUpdated = 2000\<rparr>,
       isLoading = False, error = []\<rparr>)) = 1"
  using failedAttempts_never_decreases [of "NutsTrackerCard_init 1000" 30 7
      "Body (Some [\<lparr>author = Some \<lparr>fid = Some 7\<rparr>, parent_author = None,
        cast_text = Some (concat (replicate 35 NUT))\<rparr>])" 2000 "[]" 0 0]
    failedAttempts_never_decreases [of
      "\<lparr>nutsData = \<lparr>sent = 35, received = 0, failedAttempts = 1, lastUpdated = 2000\<rparr>,
       isLoading = False, error = []\<rparr>" 30 7
      "Body (Some [\<lparr>author = Some \<lparr>fid = Some 7\<rparr>, parent_author = None,
        cast_text = Some (concat (replicate 10 NUT))\<rparr>])" 3000 "[]" 0 0]
    count35 count10
  by (simp add: NutsTrackerCard_init_def)
text \<open>
  C4. When the fetch rejects, the body does not parse, or anything in the \<open>try\<close>
  block throws, \<open>sent\<close>, \<open>received\<close>, \<open>failedAttempts\<close> and \<open>lastUpdated\<close> keep
  their values from before the call and the error message is set. The \<open>finally\<close>
  block clears the loading flag, as after every call; nothing else is written.
\<close>

theorem failed_cycle_keeps_nutsData:
  "(\<forall>e. count_nuts f resp = Inl e \<longrightarrow>
       fetchNutsData A f resp clock st
         = \<lparr>nutsData = nutsData st, isLoading = False, error = ''Failed to fetch nuts data''\<rparr>
       \<and> sent (nutsData (fetchNutsData A f resp clock st)) = sent (nutsData st)
       \<and> received (nutsData (fetchNutsData A f resp clock st)) = received (nutsData st)
       \<and> failedAttempts (nutsData (fetchNutsData A f resp clock st)) = failedAttempts (nutsData st)
       \<and> lastUpdated (nutsData (fetchNutsData A f resp clock st)) = lastUpdated (nutsData st))
   \<and> count_nuts f FetchFails = Inl FetchRejected
   \<and> count_nuts f JsonFails = Inl JsonRejected
   \<and> count_nuts f (Body None) = Inl TypeError"
  by (simp add: fetchNutsData_failure) (simp add: count_nuts_def)

theorem failed_cycle_keeps_nutsData_witness:
  "fetchNutsData 30 7 FetchFails 3000
      \<lparr>nutsData = \<lparr>sent = 35, received = 4, failedAttempts = 1, lastUpdated = 2000\<rparr>,
       isLoading = False, error = []\<rparr>
    = \<lparr>nutsData = \<lparr>sent = 35, received = 4, failedAttempts = 1, lastUpdated = 2000\<rparr>,
       isLoading = False, error = ''Failed to fetch nuts data''\<rparr>
   \<and> nutsData (fetchNutsData 30 7 JsonFails 3000
      \<lparr>nutsData = \<lparr>sent = 35, received = 4, failedAttempts = 1, lastUpdated = 2000\<rparr>,
       isLoading = False, error = []\<rparr>)
    = \<lparr>sent = 35, received = 4, failedAttempts = 1, lastUpdated = 2000\<rparr>"
  using failed_cycle_keeps_nutsData [of 7 FetchFails 30 3000
      "\<lparr>nutsData = \<lparr>sent = 35, received = 4, failedAttempts = 1, lastUpdated = 2000\<rparr>,
       isLoading = False, error = []\<rparr>"]
    failed_cycle_keeps_nutsData [of 7 JsonFails 30 3000
      "\<lparr>nutsData = \<lparr>sent = 35, received = 4, failedAttempts = 1, lastUpdated = 2000\<rparr>,
       isLoading = False, error = []\<rparr>"]
  by simp

text \<open>
  C5. For a batch of well-formed casts and a subject \<open>f\<close>, the loop ends with
  \<open>sent\<close> the sum, over the casts whose author id is \<open>f\<close>, of the number of
  occurrences of the marker in the text, and \<open>received\<close> the same sum over the casts whose
  parent author id is \<open>f\<close>; a cast matching neither adds to neither. The count is
  \<open>occurrences\<close>, the literal substring count. A successful call stores these two sums.
\<close>

theorem aggregation_matches_spec:
  assumes "list_all well_formed events"
  shows "count_nuts f (Body (Some events)) = Inr (aggregate_spec f events)
    \<and> sent (nutsData (fetchNutsData A f (Body (Some events)) clock st))
        = sum_list (map markers (filter (\<lambda>e. authorId e = Some f) events))
    \<and> received (nutsData (fetchNutsData A f (Body (Some events)) clock st))
        = sum_list (map markers (filter (\<lambda>e. parentAuthorId e = Some f) events))"
proof -
  have c: "count_nuts f (Body (Some events))
      = Inr (sum_list (map markers (filter (\<lambda>e. authorId e = Some f) events)),
             sum_list (map markers (filter (\<lambda>e. parentAuthorId e = Some f) events)))"
    using count_nuts_well_formed [OF assms, of f] by (simp add: aggregate_spec_def)
  show ?thesis
    using c by (simp add: fetchNutsData_success [OF c] aggregate_spec_def)
qed

theorem aggregation_matches_spec_witness:
  "count_nuts 7 (Body (Some
      [\<lparr>author = Some \<lparr>fid = Some 7\<rparr>, parent_author = None,
        cast_text = Some [0x78, 0xD83E, 0xDD5C, 0xD83E, 0xDD5C, 0x79]\<rparr>,
       \<lparr>author = Some \<lparr>fid = Some 8\<rparr>, parent_author = Some \<lparr>fid = Some 7\<rparr>,
        cast_text = Some [0x61, 0xD83E, 0xDD5C, 0x62]\<rparr>,
       \<lparr>author = Some \<lparr>fid = Some 8\<rparr>, parent_author = Some \<lparr>fid = None\<rparr>,
        cast_text = Some [0xD83E, 0xDD5C, 0xD83E, 0xDD5C, 0xD83E, 0xDD5C]\<rparr>])) = Inr (2, 1)"
  using aggregation_matches_spec [of
      "[\<lparr>author = Some \<lparr>fid = Some 7\<rparr>, parent_author = None,
        cast_text = Some [0x78, 0xD83E, 0xDD5C, 0xD83E, 0xDD5C, 0x79]\<rparr>,
       \<lparr>author = Some \<lparr>fid = Some 8\<rparr>, parent_author = Some \<lparr>fid = Some 7\<rparr>,
        cast_text = Some [0x61, 0xD83E, 0xDD5C, 0x62]\<rparr>,
       \<lparr>author = Some \<lparr>fid = Some 8\<rparr>, parent_author = Some \<lparr>fid = None\<rparr>,
        cast_text = Some [0xD83E, 0xDD5C, 0xD83E, 0xDD5C, 0xD83E, 0xDD5C]\<rparr>]" 7 30 1000
      "NutsTrackerCard_init 0"]
  by (simp add: well_formed_def aggregate_spec_def markers_def authorId_def parentAuthorId_def
      occurrences_def NUT_def)

text \<open>
  C6. A cast whose author and parent author are both the subject, with \<open>k\<close>
  occurrences of the marker in its text, adds \<open>k\<close> to \<open>sentNuts\<close> and \<open>k\<close> to
  \<open>receivedNuts\<close> in the same pass of the loop: neither count suppresses the other.
\<close>

theorem self_reply_counts_both:
  assumes "author e = Some a" and "fid a = Some f"
    and "parent_author e = Some p" and "fid p = Some f"
    and "cast_text e = Some s"
  shows "forEach_callback f e (sn, rn)
      = Inr (sn + int (occurrences NUT s), rn + int (occurrences NUT s))
    \<and> casts_forEach f (e # rest) (sn, rn)
      = casts_forEach f rest (sn + int (occurrences NUT s), rn + int (occurrences NUT s))
    \<and> count_nuts f (Body (Some [e])) = Inr (int (occurrences NUT s), int (occurrences NUT s))"
proof -
  have cb: "forEach_callback f e (x, y)
      = Inr (x + int (occurrences NUT s), y + int (occurrences NUT s))" for x y
    unfolding forEach_callback_def text_match_length_def nut_count_occurrences
    using assms by simp
  show ?thesis
    unfolding count_nuts_def by (simp add: cb)
qed

theorem self_reply_counts_both_witness:
  "count_nuts 7 (Body (Some
      [\<lparr>author = Some \<lparr>fid = Some 7\<rparr>, parent_author = Some \<lparr>fid = Some 7\<rparr>,
        cast_text = Some [0xD83E, 0xDD5C, 0x20, 0xD83E, 0xDD5C]\<rparr>])) = Inr (2, 2)"
  using self_reply_counts_both [of
      "\<lparr>author = Some \<lparr>fid = Some 7\<rparr>, parent_author = Some \<lparr>fid = Some 7\<rparr>,
        cast_text = Some [0xD83E, 0xDD5C, 0x20, 0xD83E, 0xDD5C]\<rparr>"
      "\<lparr>fid = Some 7\<rparr>" 7 "\<lparr>fid = Some 7\<rparr>" "[0xD83E, 0xDD5C, 0x20, 0xD83E, 0xDD5C]" 0 0 "[]"]
  by (simp add: occurrences_def NUT_def)

text \<open>
  C7. After a call whose aggregation succeeds with \<open>(s, r)\<close>, \<open>sent\<close> is \<open>s\<close>,
  \<open>received\<close> is \<open>r\<close>, \<open>lastUpdated\<close> is the clock reading, the error message is
  empty, and \<open>failedAttempts\<close> is the previous value plus the overage increment. The
  result is the same whatever the previous \<open>sent\<close>, \<open>received\<close>, \<open>lastUpdated\<close>,
  error message and loading flag were: only \<open>failedAttempts\<close> is carried forward.
\<close>

theorem successful_cycle_replaces_counts:
  assumes "count_nuts f resp = Inr (s, r)"
  shows "nutsData (fetchNutsData A f resp clock st)
      = \<lparr>sent = s, received = r,
         failedAttempts = failedAttempts (nutsData st) + (if A < s then 1 else 0),
         lastUpdated = clock\<rparr>
    \<and> error (fetchNutsData A f resp clock st) = []
    \<and> fetchNutsData A f resp clock
          (st\<lparr>nutsData := (nutsData st)\<lparr>sent := x, received := y, lastUpdated := z\<rparr>,
              error := msg, isLoading := l\<rparr>)
      = fetchNutsData A f resp clock st"
  by (simp add: fetchNutsData_success [OF assms])

theorem successful_cycle_replaces_counts_witness:
  "nutsData (fetchNutsData 30 7
      (Body (Some [\<lparr>author = Some \<lparr>fid = Some 7\<rparr>, parent_author = None,
        cast_text = Some (concat (replicate 10 NUT))\<rparr>])) 3000
      \<lparr>nutsData = \<lparr>sent = 35, received = 4, failedAttempts = 1, lastUpdated = 2000\<rparr>,
       isLoading = False, error = ''Failed to fetch nuts data''\<rparr>)
    = \<lparr>sent = 10, received = 0, failedAttempts = 1, lastUpdated = 3000\<rparr>
   \<and> error (fetchNutsData 30 7
      (Body (Some [\<lparr>author = Some \<lparr>fid = Some 7\<rparr>, parent_author = None,
        cast_text = Some (concat (replicate 10 NUT))\<rparr>])) 3000
      \<lparr>nutsData = \<lparr>sent = 35, received = 4, failedAttempts = 1, lastUpdated = 2000\<rparr>,
       isLoading = False, error = ''Failed to fetch nuts data''\<rparr>) = []"
  using successful_cycle_replaces_counts [where f = 7 and A = 30 and clock = 3000 and s = 10 and r = 0
      and resp = "Body (Some [\<lparr>author = Some \<lparr>fid = Some 7\<rparr>, parent_author = None,
        cast_text = Some (concat (replicate 10 NUT))\<rparr>])"
      and st = "\<lparr>nutsData = \<lparr>sent = 35, received = 4, failedAttempts = 1, lastUpdated = 2000\<rparr>,
       isLoading = False, error = ''Failed to fetch nuts data''\<rparr>"]
    count10
  by simp

text \<open>
  C8. The aggregation is a function of the subject and the batch alone. Running the cycle
  a second time on the same batch, from the state the first run left, gives the same
  \<open>sent\<close> and \<open>received\<close>; and when the aggregation succeeds the two counts are the
  same from any state, at any clock reading and with any allowance.
\<close>

theorem aggregation_rerun_same_counts:
  "sent (nutsData (fetchNutsData A f resp t2 (fetchNutsData A f resp t1 st)))
      = sent (nutsData (fetchNutsData A f resp t1 st))
   \<and> received (nutsData (fetchNutsData A f resp t2 (fetchNutsData A f resp t1 st)))
      = received (nutsData (fetchNutsData A f resp t1 st))
   \<and> (\<forall>s r. count_nuts f resp = Inr (s, r) \<longrightarrow>
         sent (nutsData (fetchNutsData A f resp t1 st)) = s
         \<and> received (nutsData (fetchNutsData A f resp t1 st)) = r
         \<and> sent (nutsData (fetchNutsData A' f resp t2 st')) = s
         \<and> received (nutsData (fetchNutsData A' f resp t2 st')) = r)"
proof (cases "count_nuts f resp")
  case (Inl e)
  then show ?thesis by (simp add: fetchNutsData_failure)
next
  case (Inr p)
  then show ?thesis by (cases p) (simp add: fetchNutsData_success)
qed

theorem aggregation_rerun_same_counts_witness:
  "sent (nutsData (fetchNutsData 30 7
      (Body (Some [\<lparr>author = Some \<lparr>fid = Some 7\<rparr>, parent_author = None,
        cast_text = Some (concat (replicate 10 NUT))\<rparr>])) 2000 (NutsTrackerCard_init 1000))) = 10
   \<and> sent (nutsData (fetchNutsData 5 7
      (Body (Some [\<lparr>author = Some \<lparr>fid = Some 7\<rparr>, parent_author = None,
        cast_text = Some (concat (replicate 10 NUT))\<rparr>])) 3000
      \<lparr>nutsData = \<lparr>sent = 10, received = 0, failedAttempts = 0, lastUpdated = 2000\<rparr>,
       isLoading = False, error = []\<rparr>)) = 10"
  using aggregation_rerun_same_counts [of 30 7
      "Body (Some [\<lparr>author = Some \<lparr>fid = Some 7\<rparr>, parent_author = None,
        cast_text = Some (concat (replicate 10 NUT))\<rparr>])" 3000 2000 "NutsTrackerCard_init 1000" 5
      "\<lparr>nutsData = \<lparr>sent = 10, received = 0, failedAttempts = 0, lastUpdated = 2000\<rparr>,
       isLoading = False, error = []\<rparr>"]
    count10
  by simp

text \<open>
  C9. The state the component starts with, before any call of \<open>fetchNutsData\<close> has
  completed, has \<open>sent = 0\<close>, \<open>received = 0\<close>, \<open>failedAttempts = 0\<close> and
  \<open>lastUpdated\<close> equal to the clock reading at creation.
\<close>

theorem initial_state:
  "sent (nutsData (NutsTrackerCard_init clock)) = 0
   \<and> received (nutsData (NutsTrackerCard_init clock)) = 0
   \<and> failedAttempts (nutsData (NutsTrackerCard_init clock)) = 0
   \<and> lastUpdated (nutsData (NutsTrackerCard_init clock)) = clock
   \<and> refresh_cycles A f [] (NutsTrackerCard_init clock) = NutsTrackerCard_init clock"
  by (simp add: NutsTrackerCard_init_def)

theorem initial_state_witness:
  "nutsData (refresh_cycles 30 7 [] (NutsTrackerCard_init 1739163600000))
     = \<lparr>sent = 0, received = 0, failedAttempts = 0, lastUpdated = 1739163600000\<rparr>"
  using initial_state [of 1739163600000 30 7]
  by (simp add: NutsTrackerCard_init_def)

text \<open>
  C10. After every call of \<open>fetchNutsData\<close>, successful or not, the loading flag is
  false, hence after any run of at least one call. When the first call fails the
  component renders the error message, not the loading placeholder that it renders before
  the call.
\<close>

theorem loading_cleared_after_first_cycle:
  "\<not> isLoading (fetchNutsData A f resp clock st)
   \<and> (\<forall>e. count_nuts f resp = Inl e \<longrightarrow>
         render A h t (fetchNutsData A f resp clock (NutsTrackerCard_init t0))
           = ErrorDiv ''Failed to fetch nuts data'')
   \<and> render A h t (NutsTrackerCard_init t0) = LoadingDiv
   \<and> (\<forall>c. \<not> isLoading (refresh_cycles A f (c # run) st))"
proof (intro conjI allI impI)
  show "\<not> isLoading (fetchNutsData A f resp clock st)"
    by (rule fetchNutsData_isLoading)
  show "render A h t (fetchNutsData A f resp clock (NutsTrackerCard_init t0))
      = ErrorDiv ''Failed to fetch nuts data''"
    if "count_nuts f resp = Inl e" for e
    using that by (simp add: fetchNutsData_failure render_def)
  show "render A h t (NutsTrackerCard_init t0) = LoadingDiv"
    by (simp add: render_def NutsTrackerCard_init_def)
  show "\<not> isLoading (refresh_cycles A f (c # run) st)" for c
    by (rule refresh_cycles_isLoading) simp
qed

theorem loading_cleared_after_first_cycle_witness:
  "\<not> isLoading (fetchNutsData 30 7 FetchFails 2000 (NutsTrackerCard_init 1000))
   \<and> render 30 0 2500 (fetchNutsData 30 7 FetchFails 2000 (NutsTrackerCard_init 1000))
       = ErrorDiv ''Failed to fetch nuts data''"
  using loading_cleared_after_first_cycle [of 30 7 FetchFails 2000 "NutsTrackerCard_init 1000" 0 2500 1000 "[]"]
  by (simp add: count_nuts_def)

end
